theory Spec2Isabelle
  imports Main "HOL-Library.AList"
begin

section \<open>Python values shared by the embedded modules\<close>

text \<open>
  Exceptions raised by the embedded functions are values of \<open>error\<close>; a function that can
  raise returns \<open>error + 'a\<close> with \<open>Inl\<close> for the exception. \<open>Untyped\<close> is not a Python
  exception: it marks a combination of values that lies outside the types of this embedding.
\<close>

datatype error =
  AssertionError | KeyError | IndexError | ValueError | TypeError | AttributeError | Untyped

type_synonym key = string

text \<open>A Python \<open>dict\<close> with string keys, in insertion order.\<close>

type_synonym 'v dict = "(key \<times> 'v) list"

definition keys :: "'v dict \<Rightarrow> key set" where
  "keys d = set (map fst d)"

text \<open>\<open>xs[i]\<close> on a Python list: a negative index counts from the end, out of range raises.\<close>

definition py_getitem :: "'a list \<Rightarrow> int \<Rightarrow> error + 'a" where
  "py_getitem xs i =
     (if 0 \<le> i \<and> i < int (length xs) then Inr (xs ! nat i)
      else if i < 0 \<and> - int (length xs) \<le> i then Inr (xs ! nat (int (length xs) + i))
      else Inl IndexError)"

section \<open>dataset/combined\_dataset.py\<close>

text \<open>
  A dataset is an indexable collection of records, each record a \<open>dict\<close>; the combined
  dataset holds the list of datasets it was built from.
\<close>

type_synonym 'v dataset = "'v dict list"

record 'v combined_dataset =
  datasets :: "'v dataset list"

text \<open>The loop of \<open>__init__\<close> over \<open>datasets[1:]\<close>, comparing \<open>ds[0].keys()\<close> with \<open>keys\<close>.\<close>

fun match_keys :: "key set \<Rightarrow> 'v dataset list \<Rightarrow> error + unit" where
  "match_keys ks [] = Inr ()"
| "match_keys ks (ds # rest) =
     (case py_getitem ds 0 of
        Inl e \<Rightarrow> Inl e
      | Inr r \<Rightarrow> if keys r \<noteq> ks then Inl KeyError else match_keys ks rest)"

definition init :: "'v dataset list \<Rightarrow> error + 'v combined_dataset" where
  "init dss =
     (if length dss < 2 then Inl AssertionError
      else case py_getitem (dss ! 0) 0 of
             Inl e \<Rightarrow> Inl e
           | Inr r \<Rightarrow>
               (case match_keys (keys r) (tl dss) of
                  Inl e \<Rightarrow> Inl e
                | Inr _ \<Rightarrow> Inr \<lparr>datasets = dss\<rparr>))"

definition len :: "'v combined_dataset \<Rightarrow> int" where
  "len c = sum_list (map (\<lambda>ds. int (length ds)) (datasets c))"

text \<open>
  The loop of \<open>__getitem__\<close> with its two counters. Falling out of the loop returns
  Python's \<open>None\<close>, here \<open>Inr None\<close>.
\<close>

fun getitem_loop :: "int \<Rightarrow> int \<Rightarrow> int \<Rightarrow> 'v dataset list \<Rightarrow> error + 'v dict option" where
  "getitem_loop idx start end [] = Inr None"
| "getitem_loop idx start end (ds # rest) =
     (let end' = end + int (length ds)
      in if idx \<ge> start \<and> idx < end'
         then (case py_getitem ds (idx - start) of Inl e \<Rightarrow> Inl e | Inr r \<Rightarrow> Inr (Some r))
         else getitem_loop idx (start + end') end' rest)"

definition getitem :: "'v combined_dataset \<Rightarrow> int \<Rightarrow> error + 'v dict option" where
  "getitem c idx = getitem_loop idx 0 0 (datasets c)"

text \<open>The reference the combined dataset is compared with: all records, in order.\<close>

definition flatten :: "'v dataset list \<Rightarrow> 'v dict list" where
  "flatten dss = concat dss"

section \<open>trace/xai/saliency.py: the sample collector of \<open>Saliency\<close>\<close>

text \<open>
  A batch is an array whose first axis is the batch axis: the list of its rows. \<open>len\<close> of a
  batch is its number of rows. The \<open>Data\<close> object handed to a trace maps keys to batches;
  reading a key it does not hold raises \<open>KeyError\<close>.
\<close>

type_synonym mode = string
type_synonym 'a batch = "'a list"
type_synonym 'a data = "key \<rightharpoonup> 'a batch"

text \<open>
  \<open>self.samples[mode]\<close> is either the \<open>defaultdict(list)\<close> that \<open>__init__\<close> creates, whose
  values are Python lists of batches, or a plain \<open>dict\<close> from keys to arrays: the one the user
  passed as \<open>samples\<close>, or the one \<open>on_epoch_end\<close> builds.
\<close>

datatype 'a buffer =
  DefaultDict "'a batch list dict"
| Dict "'a batch dict"

text \<open>The \<open>samples\<close> argument of \<open>__init__\<close>: \<open>None\<close>, an \<open>int\<close>, or a \<open>dict\<close>.\<close>

datatype 'a samples_arg = NoSamples | Count int | Given "'a batch dict"

record 'a saliency =
  inputs :: "key list"
  samples :: "mode \<rightharpoonup> 'a buffer"
  n_found :: "mode \<rightharpoonup> int"
  n_required :: "mode \<rightharpoonup> int"

text \<open>The body of the loop of \<open>__init__\<close> for one mode.\<close>

definition init_mode :: "'a samples_arg \<Rightarrow> 'a saliency \<Rightarrow> mode \<Rightarrow> 'a saliency" where
  "init_mode arg s m =
     (case arg of
        Count n \<Rightarrow>
          s\<lparr>samples := (samples s)(m \<mapsto> DefaultDict []),
            n_found := (n_found s)(m \<mapsto> 0),
            n_required := (n_required s)(m \<mapsto> n)\<rparr>
      | NoSamples \<Rightarrow>
          s\<lparr>samples := (samples s)(m \<mapsto> DefaultDict []),
            n_found := (n_found s)(m \<mapsto> 0),
            n_required := (n_required s)(m \<mapsto> 0)\<rparr>
      | Given d \<Rightarrow>
          s\<lparr>samples := (samples s)(m \<mapsto> Dict d),
            n_found := (n_found s)(m \<mapsto> 0),
            n_required := (n_required s)(m \<mapsto> 0)\<rparr>)"

text \<open>
  \<open>__init__\<close>, as far as the collector goes. \<open>ins\<close> is \<open>self.inputs\<close>, that is
  \<open>to_list(class_key) + to_list(model_inputs)\<close>; \<open>modes\<close> is the iterable \<open>mode\<close>, the
  empty list standing for a falsy \<open>mode\<close>, which selects the three default modes.
\<close>

definition modes_or_default :: "mode list \<Rightarrow> mode list" where
  "modes_or_default modes = (if modes = [] then [''train'', ''eval'', ''test''] else modes)"

definition saliency_init :: "key list \<Rightarrow> 'a samples_arg \<Rightarrow> mode list \<Rightarrow> 'a saliency" where
  "saliency_init ins arg modes =
     foldl (init_mode arg)
       \<lparr>inputs = ins, samples = Map.empty, n_found = Map.empty, n_required = Map.empty\<rparr>
       (modes_or_default modes)"

text \<open>Truth value of \<open>self.samples[mode]\<close>: a dictionary is falsy exactly when it is empty.\<close>

fun falsy :: "'a buffer \<Rightarrow> bool" where
  "falsy (DefaultDict d) = (d = [])"
| "falsy (Dict d) = (d = [])"

text \<open>
  The loop \<open>for key in self.inputs\<close> of \<open>on_batch_end\<close>, threading the buffer and
  \<open>n_samples\<close>. \<open>self.samples[mode][key]\<close> creates an empty list in a \<open>defaultdict\<close> and raises
  \<open>KeyError\<close> in a plain \<open>dict\<close> that lacks the key; an array has no \<open>append\<close>.
\<close>

fun append_keys :: "'a data \<Rightarrow> key list \<Rightarrow> 'a buffer \<Rightarrow> int \<Rightarrow> error + ('a buffer \<times> int)" where
  "append_keys dat [] buf n = Inr (buf, n)"
| "append_keys dat (k # ks) (Dict d) n =
     (case map_of d k of None \<Rightarrow> Inl KeyError | Some _ \<Rightarrow> Inl AttributeError)"
| "append_keys dat (k # ks) (DefaultDict d) n =
     (case dat k of
        None \<Rightarrow> Inl KeyError
      | Some b \<Rightarrow>
          append_keys dat ks
            (DefaultDict
               (AList.update k ((case map_of d k of None \<Rightarrow> [] | Some l \<Rightarrow> l) @ [b]) d))
            (int (length b)))"

definition accumulate :: "mode \<Rightarrow> 'a data \<Rightarrow> 'a buffer \<Rightarrow> 'a saliency \<Rightarrow> error + 'a saliency" where
  "accumulate m dat buf s =
     (case append_keys dat (inputs s) buf 0 of
        Inl e \<Rightarrow> Inl e
      | Inr (buf', n_samples) \<Rightarrow>
          (case n_found s m of
             None \<Rightarrow> Inl KeyError
           | Some f \<Rightarrow>
               Inr (s\<lparr>samples := (samples s)(m \<mapsto> buf'),
                      n_found := (n_found s)(m \<mapsto> f + n_samples)\<rparr>)))"

text \<open>\<open>on_batch_end\<close>; \<open>m\<close> is \<open>self.system.mode\<close>.\<close>

definition on_batch_end :: "mode \<Rightarrow> 'a data \<Rightarrow> 'a saliency \<Rightarrow> error + 'a saliency" where
  "on_batch_end m dat s =
     (case samples s m of
        None \<Rightarrow> Inl KeyError
      | Some buf \<Rightarrow>
          if falsy buf then accumulate m dat buf s
          else (case n_found s m of
                  None \<Rightarrow> Inl KeyError
                | Some f \<Rightarrow>
                    (case n_required s m of
                       None \<Rightarrow> Inl KeyError
                     | Some r \<Rightarrow> if f < r then accumulate m dat buf s else Inr s)))"

text \<open>
  Modelled from the spec: \<open>concat\<close> of \<open>fastestimator.backend._concat\<close>, which is not among
  the sources; the spec has it "concatenate each key's pending list along the batch axis".
\<close>

definition concat_batch :: "'a batch list \<Rightarrow> 'a batch" where
  "concat_batch bs = concat bs"

text \<open>The slice \<open>xs[:n]\<close>.\<close>

definition slice_to :: "'a list \<Rightarrow> int \<Rightarrow> 'a list" where
  "slice_to xs n = (if 0 \<le> n then take (nat n) xs else take (nat (int (length xs) + n)) xs)"

text \<open>The comprehension \<open>{key: val[0] for key, val in ...items()}\<close>.\<close>

fun first_batches :: "'a batch list dict \<Rightarrow> error + 'a batch dict" where
  "first_batches [] = Inr []"
| "first_batches ((k, v) # rest) =
     (case py_getitem v 0 of
        Inl e \<Rightarrow> Inl e
      | Inr b \<Rightarrow> (case first_batches rest of Inl e \<Rightarrow> Inl e | Inr d \<Rightarrow> Inr ((k, b) # d)))"

text \<open>
  The new value of \<open>self.samples[mode]\<close> in \<open>on_epoch_end\<close>. Both comprehensions expect the
  values to be lists of batches; over a non-empty plain \<open>dict\<close> of arrays they would slice the
  arrays themselves, which the types here do not describe.
\<close>

fun finalize :: "int \<Rightarrow> 'a buffer \<Rightarrow> error + 'a buffer" where
  "finalize r (DefaultDict d) =
     (if r > 0 then Inr (Dict (map (\<lambda>(k, v). (k, slice_to (concat_batch v) r)) d))
      else (case first_batches d of Inl e \<Rightarrow> Inl e | Inr d' \<Rightarrow> Inr (Dict d')))"
| "finalize r (Dict d) = (if d = [] then Inr (Dict []) else Inl Untyped)"

text \<open>
  \<open>on_epoch_end\<close> up to the reset of the two counters. The rest of the method computes the
  masks from \<open>self.samples[mode]\<close> and writes an image to \<open>data\<close>; it assigns to none of
  \<open>samples\<close>, \<open>n_found\<close>, \<open>n_required\<close>.
\<close>

definition on_epoch_end :: "mode \<Rightarrow> 'a saliency \<Rightarrow> error + 'a saliency" where
  "on_epoch_end m s =
     (case n_found s m of
        None \<Rightarrow> Inl KeyError
      | Some f \<Rightarrow>
          if f > 0 then
            (case n_required s m of
               None \<Rightarrow> Inl KeyError
             | Some r \<Rightarrow>
                 (case samples s m of
                    None \<Rightarrow> Inl KeyError
                  | Some buf \<Rightarrow>
                      (case finalize r buf of
                         Inl e \<Rightarrow> Inl e
                       | Inr buf' \<Rightarrow>
                           Inr (s\<lparr>samples := (samples s)(m \<mapsto> buf'),
                                  n_found := (n_found s)(m \<mapsto> 0),
                                  n_required := (n_required s)(m \<mapsto> 0)\<rparr>))))
          else Inr s)"

text \<open>The trace is driven by the training loop: a sequence of the two events.\<close>

datatype 'a event = BatchEnd mode "'a data" | EpochEnd mode

fun step :: "'a event \<Rightarrow> 'a saliency \<Rightarrow> error + 'a saliency" where
  "step (BatchEnd m dat) s = on_batch_end m dat s"
| "step (EpochEnd m) s = on_epoch_end m s"

fun run :: "'a event list \<Rightarrow> 'a saliency \<Rightarrow> error + 'a saliency" where
  "run [] s = Inr s"
| "run (ev # evs) s = (case step ev s of Inl e \<Rightarrow> Inl e | Inr s' \<Rightarrow> run evs s')"

section \<open>util/util.py: \<open>pad_data\<close>\<close>

text \<open>
  A numpy array: its \<open>shape\<close> and its elements, nested along the axes. The shape is kept
  beside the elements because an axis of length 0 hides the lengths of the axes below it.
  \<open>has_shape\<close> says that the nesting agrees with the shape, as it does for every
  \<open>np.ndarray\<close>.
\<close>

datatype 'a nd = Item 'a | Nd "'a nd list"


fun has_shape :: "nat list \<Rightarrow> 'a nd \<Rightarrow> bool" where
  "has_shape [] (Item x) = True"
| "has_shape (n # ns) (Nd xs) = (length xs = n \<and> (\<forall>x\<in>set xs. has_shape ns x))"
| "has_shape _ _ = False"


text \<open>\<open>a[i1, ..., ik]\<close> for a full index; \<open>None\<close> when the index leaves the array.\<close>

fun nd_get :: "'a nd \<Rightarrow> nat list \<Rightarrow> 'a option" where
  "nd_get (Item x) [] = Some x"
| "nd_get (Nd xs) (i # is) = (if i < length xs then nd_get (xs ! i) is else None)"
| "nd_get _ _ = None"

definition in_bounds :: "nat list \<Rightarrow> nat list \<Rightarrow> bool" where
  "in_bounds sh idx = list_all2 (\<lambda>i n. i < n) idx sh"




definition padded_shape :: "(nat \<times> nat) list \<Rightarrow> nat list \<Rightarrow> nat list" where
  "padded_shape ps ns = map2 (\<lambda>p n. fst p + n + snd p) ps ns"




section \<open>util/util.py: \<open>cpu_count\<close>\<close>

text \<open>\<open>os.environ\<close>: a map from variable names to strings.\<close>

type_synonym env = "string \<rightharpoonup> string"

text \<open>
  \<open>int(s)\<close> on a string, over ASCII: surrounding whitespace is dropped, one sign may lead,
  and the decimal digits may be separated by single underscores. \<open>None\<close> is \<open>ValueError\<close>.
\<close>

definition is_space :: "char \<Rightarrow> bool" where
  "is_space c = (c \<in> set [CHR '' '', CHR 0x09, CHR 0x0A, CHR 0x0B, CHR 0x0C, CHR 0x0D])"

definition is_digit :: "char \<Rightarrow> bool" where
  "is_digit c = (c \<in> set ''0123456789'')"

definition digit_val :: "char \<Rightarrow> nat" where
  "digit_val c = of_char c - 48"

definition strip :: "string \<Rightarrow> string" where
  "strip s = rev (dropWhile is_space (rev (dropWhile is_space s)))"

fun digits_from :: "nat \<Rightarrow> string \<Rightarrow> nat option" where
  "digits_from acc [] = Some acc"
| "digits_from acc [c] = (if is_digit c then Some (acc * 10 + digit_val c) else None)"
| "digits_from acc (c # d # cs) =
     (if c = CHR ''_'' then
        (if is_digit d then digits_from (acc * 10 + digit_val d) cs else None)
      else if is_digit c then digits_from (acc * 10 + digit_val c) (d # cs)
      else None)"

definition parse_nat :: "string \<Rightarrow> nat option" where
  "parse_nat s =
     (case s of [] \<Rightarrow> None
      | c # cs \<Rightarrow> if is_digit c then digits_from (digit_val c) cs else None)"

definition py_int :: "string \<Rightarrow> int option" where
  "py_int s =
     (case strip s of
        [] \<Rightarrow> None
      | c # cs \<Rightarrow>
          if c = CHR ''-'' then map_option (\<lambda>n. - int n) (parse_nat cs)
          else if c = CHR ''+'' then map_option int (parse_nat cs)
          else map_option int (parse_nat (c # cs)))"

text \<open>The decimal text of an integer, as \<open>f"{cores}"\<close> writes it.\<close>

fun str_nat :: "nat \<Rightarrow> string" where
  "str_nat n =
     (if n < 10 then [''0123456789'' ! n]
      else str_nat (n div 10) @ [''0123456789'' ! (n mod 10)])"

declare str_nat.simps [simp del]

definition str_int :: "int \<Rightarrow> string" where
  "str_int i = (if i < 0 then CHR ''-'' # str_nat (nat (- i)) else str_nat (nat i))"

text \<open>\<open>x or y\<close> for an optional integer \<open>x\<close>: \<open>None\<close> and 0 are falsy.\<close>

definition or_else :: "int option \<Rightarrow> int \<Rightarrow> int" where
  "or_else x y = (case x of None \<Rightarrow> y | Some v \<Rightarrow> if v = 0 then y else v)"

text \<open>
  \<open>cpu_count\<close>. \<open>cores\<close> is what the operating system reports,
  \<open>len(os.sched_getaffinity(0))\<close> or \<open>os.cpu_count()\<close>; the environment is threaded through.
  The two calls that hand the number to torch do not touch the environment and are left out.
\<close>

definition cpu_count :: "int option \<Rightarrow> int \<Rightarrow> env \<Rightarrow> error + (int \<times> env)" where
  "cpu_count limit cores environ =
     (let existing_limit = environ ''FE_NUM_THREADS_'' in
      if existing_limit \<noteq> None \<and> existing_limit \<noteq> Some [] then
        (case py_int (the existing_limit) of
           None \<Rightarrow> Inl ValueError
         | Some existing \<Rightarrow>
             if limit \<noteq> None \<and> limit \<noteq> Some 0 \<and> limit \<noteq> Some existing then Inl ValueError
             else Inr (existing, environ))
      else
        (let env_limit = environ ''FE_NUM_THREADS'' in
         case (if env_limit \<noteq> None \<and> env_limit \<noteq> Some []
               then map_option Some (py_int (the env_limit)) else Some None) of
           None \<Rightarrow> Inl ValueError
         | Some env_limit' \<Rightarrow>
             (let cores' = min cores (min (or_else limit cores) (or_else env_limit' cores)) in
              if cores' < 1 then Inl ValueError
              else Inr (cores',
                        environ(''FE_NUM_THREADS_'' \<mapsto> str_int cores',
                                ''OMP_NUM_THREADS'' \<mapsto> str_int cores',
                                ''MKL_NUM_THREADS'' \<mapsto> str_int cores',
                                ''TF_NUM_INTEROP_THREADS'' \<mapsto> str_int cores',
                                ''TF_NUM_INTRAOP_THREADS'' \<mapsto> str_int cores')))))"

section \<open>Notions used to state the properties\<close>

text \<open>What \<open>__init__\<close> leaves in \<open>samples[mode]\<close> and \<open>n_required[mode]\<close> for each argument.\<close>

fun arg_buffer :: "'a samples_arg \<Rightarrow> 'a buffer" where
  "arg_buffer NoSamples = DefaultDict []"
| "arg_buffer (Count n) = DefaultDict []"
| "arg_buffer (Given d) = Dict d"

fun arg_required :: "'a samples_arg \<Rightarrow> int" where
  "arg_required (Count n) = n"
| "arg_required _ = 0"

text \<open>
  The invariant of the collector for one mode. While collecting, every pending list holds
  a batch and a positive count means that something was stored; a plain dictionary comes
  with both counters at 0.
\<close>

fun buf_ok :: "'a buffer \<Rightarrow> int \<Rightarrow> int \<Rightarrow> bool" where
  "buf_ok (DefaultDict d) f r = ((\<forall>v\<in>snd ` set d. v \<noteq> []) \<and> 0 \<le> f \<and> (0 < f \<longrightarrow> d \<noteq> []))"
| "buf_ok (Dict d) f r = (f = 0 \<and> r = 0)"

definition collector_inv :: "'a saliency \<Rightarrow> mode \<Rightarrow> bool" where
  "collector_inv s m =
     (case samples s m of
        None \<Rightarrow> n_found s m = None \<and> n_required s m = None
      | Some buf \<Rightarrow> \<exists>f r. n_found s m = Some f \<and> n_required s m = Some r \<and> buf_ok buf f r)"

text \<open>A mode that has been finalized: a non-empty plain dictionary, both counters 0.\<close>

definition frozen :: "'a saliency \<Rightarrow> mode \<Rightarrow> bool" where
  "frozen s m = (\<exists>fd. samples s m = Some (Dict fd) \<and> fd \<noteq> []
                   \<and> n_found s m = Some 0 \<and> n_required s m = Some 0)"

section \<open>Properties of the combined dataset\<close>

lemma sum_len: "(\<Sum>ds\<leftarrow>dss. int (length ds)) = int (length (concat dss))"
  by (induction dss) simp_all

lemma len_flatten: "len c = int (length (flatten (datasets c)))"
  by (simp add: len_def flatten_def sum_len)


lemma getitem_loop_outside:
  "(0 \<le> e \<and> idx < s) \<or> e + (\<Sum>ds\<leftarrow>dss. int (length ds)) \<le> idx \<Longrightarrow> getitem_loop idx s e dss = Inr None"
proof (induction dss arbitrary: s e)
  case Nil
  show ?case by simp
next
  case (Cons ds rest)
  let ?e = "e + int (length ds)"
  have nn: "0 \<le> (\<Sum>ds\<leftarrow>rest. int (length ds))" by (simp add: sum_len)
  from Cons.prems nn have nohit: "\<not> (s \<le> idx \<and> idx < ?e)"
    by auto
  from Cons.prems have "(0 \<le> ?e \<and> idx < s + ?e) \<or> ?e + (\<Sum>ds\<leftarrow>rest. int (length ds)) \<le> idx"
    by auto
  then have "getitem_loop idx (s + ?e) ?e rest = Inr None"
    by (rule Cons.IH)
  with nohit show ?case by (auto simp: Let_def)
qed

lemma getitem_two:
  assumes "0 \<le> idx" "idx < len \<lparr>datasets = [a, b]\<rparr>"
  shows "getitem \<lparr>datasets = [a, b]\<rparr> idx = Inr (Some (flatten [a, b] ! nat idx))"
  using assms by (auto simp: getitem_def len_def flatten_def py_getitem_def Let_def nth_append nat_diff_distrib)

lemma py_getitem_first: "ds \<noteq> [] \<Longrightarrow> py_getitem ds 0 = Inr (hd ds)"
  by (cases ds) (simp_all add: py_getitem_def)

lemma match_keys_same:
  "\<forall>ds\<in>set dss. ds \<noteq> [] \<and> keys (hd ds) = ks \<Longrightarrow> match_keys ks dss = Inr ()"
  by (induction dss) (simp_all add: py_getitem_first)

lemma match_keys_differ:
  "\<forall>ds\<in>set dss. ds \<noteq> [] \<Longrightarrow> \<exists>ds\<in>set dss. keys (hd ds) \<noteq> ks \<Longrightarrow>
   match_keys ks dss = Inl KeyError"
  by (induction dss) (auto simp: py_getitem_first)

text \<open>
  C1. The specification: for at least two sources with the same keys in their first
  records, the length is the sum of the lengths of the sources and \<open>__getitem__(i)\<close> is the
  \<open>i\<close>-th record of the sources laid end to end. The length is right (\<open>len_flatten\<close>) and so is every index
  for two sources (\<open>getitem_two\<close>). With three sources \<open>start += end\<close> adds the cumulative end
  to \<open>start\<close>, not the length of the source just passed. For sources of lengths 1, 1 and 3
  the constructor accepts them, the length is 5, index 3 returns the first record of the
  third source where the flattened sequence has its second, and index 2 returns \<open>None\<close>.
\<close>

theorem getitem_three_sources_misplaced:
  "init [[[(''x'', 1::int)]], [[(''x'', 2)]], [[(''x'', 3)], [(''x'', 4)], [(''x'', 5)]]]
     = Inr \<lparr>datasets = [[[(''x'', 1)]], [[(''x'', 2)]], [[(''x'', 3)], [(''x'', 4)], [(''x'', 5)]]]\<rparr>
   \<and> len \<lparr>datasets = [[[(''x'', 1::int)]], [[(''x'', 2)]], [[(''x'', 3)], [(''x'', 4)], [(''x'', 5)]]]\<rparr> = 5
   \<and> getitem \<lparr>datasets = [[[(''x'', 1::int)]], [[(''x'', 2)]], [[(''x'', 3)], [(''x'', 4)], [(''x'', 5)]]]\<rparr> 3
       = Inr (Some [(''x'', 3)])
   \<and> py_getitem (flatten [[[(''x'', 1::int)]], [[(''x'', 2)]], [[(''x'', 3)], [(''x'', 4)], [(''x'', 5)]]]) 3
       = Inr [(''x'', 4)]
   \<and> getitem \<lparr>datasets = [[[(''x'', 1::int)]], [[(''x'', 2)]], [[(''x'', 3)], [(''x'', 4)], [(''x'', 5)]]]\<rparr> 2
       = Inr None
   \<and> py_getitem (flatten [[[(''x'', 1::int)]], [[(''x'', 2)]], [[(''x'', 3)], [(''x'', 4)], [(''x'', 5)]]]) 2
       = Inr [(''x'', 3)]"
  by (simp add: init_def len_def getitem_def flatten_def py_getitem_def keys_def)

text \<open>
  C6. Fewer than two sources are refused with the \<open>AssertionError\<close> of the first check (the
  configuration error of the specification). With two or more non-empty sources, a source whose
  first record has other keys than the first record of the first source is refused with
  \<open>KeyError\<close>, and when all first records have the same keys the sources are accepted,
  whatever keys their later records have: only first records are read.
\<close>

theorem init_checks:
  "(length dss < 2 \<longrightarrow> init dss = Inl AssertionError)
   \<and> (2 \<le> length dss \<and> (\<forall>ds\<in>set dss. ds \<noteq> [])
        \<and> (\<exists>ds\<in>set (tl dss). keys (hd ds) \<noteq> keys (hd (hd dss)))
       \<longrightarrow> init dss = Inl KeyError)
   \<and> (2 \<le> length dss \<and> (\<forall>ds\<in>set dss. ds \<noteq> [])
        \<and> (\<forall>ds\<in>set (tl dss). keys (hd ds) = keys (hd (hd dss)))
       \<longrightarrow> init dss = Inr \<lparr>datasets = dss\<rparr>)"
proof (intro conjI impI)
  assume "length dss < 2"
  then show "init dss = Inl AssertionError" by (simp add: init_def)
next
  assume a: "2 \<le> length dss \<and> (\<forall>ds\<in>set dss. ds \<noteq> [])
        \<and> (\<exists>ds\<in>set (tl dss). keys (hd ds) \<noteq> keys (hd (hd dss)))"
  then obtain d0 rest where dss: "dss = d0 # rest" by (cases dss) auto
  with a have "d0 \<noteq> []" "\<forall>ds\<in>set rest. ds \<noteq> []" "\<exists>ds\<in>set rest. keys (hd ds) \<noteq> keys (hd d0)"
    by auto
  with a dss show "init dss = Inl KeyError"
    by (auto simp: init_def py_getitem_first match_keys_differ)
next
  assume a: "2 \<le> length dss \<and> (\<forall>ds\<in>set dss. ds \<noteq> [])
        \<and> (\<forall>ds\<in>set (tl dss). keys (hd ds) = keys (hd (hd dss)))"
  then obtain d0 rest where dss: "dss = d0 # rest" by (cases dss) auto
  with a have "d0 \<noteq> []" "\<forall>ds\<in>set rest. ds \<noteq> [] \<and> keys (hd ds) = keys (hd d0)"
    by auto
  with a dss show "init dss = Inr \<lparr>datasets = dss\<rparr>"
    by (auto simp: init_def py_getitem_first match_keys_same)
qed

theorem init_checks_witness:
  "init [[[(''x'', 1::int)]]] = Inl AssertionError
   \<and> init [[[(''x'', 1::int)]], [[(''y'', 2)]]] = Inl KeyError
   \<and> init [[[(''x'', 1::int)], [(''y'', 7)]], [[(''x'', 2)], [(''z'', 8), (''w'', 9)]]]
       = Inr \<lparr>datasets = [[[(''x'', 1)], [(''y'', 7)]], [[(''x'', 2)], [(''z'', 8), (''w'', 9)]]]\<rparr>"
  using init_checks [of "[[[(''x'', 1::int)]]]"]
    init_checks [of "[[[(''x'', 1::int)]], [[(''y'', 2)]]]"]
    init_checks [of "[[[(''x'', 1::int)], [(''y'', 7)]], [[(''x'', 2)], [(''z'', 8), (''w'', 9)]]]"]
  by (simp add: keys_def)

text \<open>
  C7. The specification has \<open>__getitem__\<close> raise for an index outside \<open>0 \<le> index < length\<close>. The
  method has no \<open>raise\<close>: for every such index, negative or past the end, the loop matches no
  source and the method returns \<open>None\<close>.
\<close>

theorem getitem_out_of_range:
  "idx < 0 \<or> len c \<le> idx \<Longrightarrow> getitem c idx = Inr None"
  unfolding getitem_def len_def by (rule getitem_loop_outside) auto

theorem getitem_out_of_range_witness:
  "getitem \<lparr>datasets = [[[(''x'', 1::int)]], [[(''x'', 2)]]]\<rparr> 2 = Inr None
   \<and> getitem \<lparr>datasets = [[[(''x'', 1::int)]], [[(''x'', 2)]]]\<rparr> (- 1) = Inr None"
  using getitem_out_of_range [of 2 "\<lparr>datasets = [[[(''x'', 1::int)]], [[(''x'', 2)]]]\<rparr>"]
    getitem_out_of_range [of "- 1" "\<lparr>datasets = [[[(''x'', 1::int)]], [[(''x'', 2)]]]\<rparr>"]
  by (simp add: len_def)

text \<open>
  C7 as the specification states it fails on two sources of one record each: the length is 2
  and index 2 gives \<open>None\<close>, not \<open>IndexError\<close>.
\<close>

theorem getitem_past_end_is_none:
  "len \<lparr>datasets = [[[(''x'', 1::int)]], [[(''x'', 2)]]]\<rparr> = 2
   \<and> getitem \<lparr>datasets = [[[(''x'', 1::int)]], [[(''x'', 2)]]]\<rparr> 2 \<noteq> Inl IndexError
   \<and> getitem \<lparr>datasets = [[[(''x'', 1::int)]], [[(''x'', 2)]]]\<rparr> 2 = Inr None"
  by (simp add: len_def getitem_def)

section \<open>Properties of the sample collector\<close>

lemma set_update_sub: "set (AList.update k v d) \<subseteq> insert (k, v) (set d)"
  by (induction d) auto

lemma update_fresh: "k \<notin> fst ` set d \<Longrightarrow> AList.update k v d = d @ [(k, v)]"
  by (induction d) auto

lemma map_of_fresh: "k \<notin> fst ` set d \<Longrightarrow> map_of d k = None"
  by (simp add: map_of_eq_None_iff)

lemma append_keys_fresh:
  assumes "distinct ks" "set ks \<inter> fst ` set d = {}" "\<forall>k\<in>set ks. dat k = Some (b k)"
  shows "append_keys dat ks (DefaultDict d) n =
           Inr (DefaultDict (d @ map (\<lambda>k. (k, [b k])) ks),
                if ks = [] then n else int (length (b (last ks))))"
  using assms
proof (induction ks arbitrary: d n)
  case Nil
  show ?case by simp
next
  case (Cons k ks)
  have fresh: "k \<notin> fst ` set d" using Cons.prems(2) by auto
  have d: "dat k = Some (b k)" using Cons.prems(3) by simp
  have "set ks \<inter> fst ` set (d @ [(k, [b k])]) = {}"
    using Cons.prems(1,2) by auto
  with Cons.IH[of "d @ [(k, [b k])]" "int (length (b k))"] Cons.prems
  have "append_keys dat ks (DefaultDict (d @ [(k, [b k])])) (int (length (b k))) =
          Inr (DefaultDict ((d @ [(k, [b k])]) @ map (\<lambda>k. (k, [b k])) ks),
               if ks = [] then int (length (b k)) else int (length (b (last ks))))"
    by simp
  then show ?case
    by (simp add: d map_of_fresh[OF fresh] update_fresh[OF fresh])
qed

lemma update_map_keys:
  "distinct all \<Longrightarrow> k \<in> set all \<Longrightarrow>
   AList.update k v (map (\<lambda>k. (k, f k)) all) = map (\<lambda>k'. (k', (f(k := v)) k')) all"
  by (induction all) (auto simp: update_fresh image_iff intro!: update_fresh[where d="map _ _", simplified])

lemma map_of_map_keys: "map_of (map (\<lambda>k. (k, f k)) all) k = (if k \<in> set all then Some (f k) else None)"
  by (induction all) auto

lemma append_keys_present:
  assumes "distinct all" "distinct ks" "set ks \<subseteq> set all" "\<forall>k\<in>set ks. dat k = Some (b k)"
  shows "append_keys dat ks (DefaultDict (map (\<lambda>k. (k, f k)) all)) n =
           Inr (DefaultDict (map (\<lambda>k. (k, if k \<in> set ks then f k @ [b k] else f k)) all),
                if ks = [] then n else int (length (b (last ks))))"
  using assms(2-)
proof (induction ks arbitrary: f n)
  case Nil
  show ?case by simp
next
  case (Cons k ks)
  have kin: "k \<in> set all" and d: "dat k = Some (b k)" and knot: "k \<notin> set ks"
    using Cons.prems by auto
  let ?f = "f(k := f k @ [b k])"
  have "append_keys dat ks (DefaultDict (map (\<lambda>k. (k, ?f k)) all)) (int (length (b k))) =
          Inr (DefaultDict (map (\<lambda>k. (k, if k \<in> set ks then ?f k @ [b k] else ?f k)) all),
               if ks = [] then int (length (b k)) else int (length (b (last ks))))"
    using Cons.prems by (intro Cons.IH) auto
  moreover have "map (\<lambda>k'. (k', if k' \<in> set ks then ?f k' @ [b k'] else ?f k')) all =
                 map (\<lambda>k'. (k', if k' \<in> set (k # ks) then f k' @ [b k'] else f k')) all"
    using knot by auto
  ultimately show ?case
    by (simp add: d map_of_map_keys kin update_map_keys[OF assms(1) kin])
qed

lemma init_mode_other: "m' \<noteq> m \<Longrightarrow> samples (init_mode arg s m') m = samples s m
   \<and> n_found (init_mode arg s m') m = n_found s m \<and> n_required (init_mode arg s m') m = n_required s m"
  by (cases arg) (simp_all add: init_mode_def)

lemma init_mode_inputs: "inputs (init_mode arg s m) = inputs s"
  by (cases arg) (simp_all add: init_mode_def)

lemma init_mode_same: "samples (init_mode arg s m) m = Some (arg_buffer arg)
   \<and> n_found (init_mode arg s m) m = Some 0 \<and> n_required (init_mode arg s m) m = Some (arg_required arg)"
  by (cases arg) (simp_all add: init_mode_def)

lemma foldl_init_mode:
  "inputs (foldl (init_mode arg) s ms) = inputs s \<and>
   (m \<in> set ms \<longrightarrow> samples (foldl (init_mode arg) s ms) m = Some (arg_buffer arg)
     \<and> n_found (foldl (init_mode arg) s ms) m = Some 0
     \<and> n_required (foldl (init_mode arg) s ms) m = Some (arg_required arg)) \<and>
   (m \<notin> set ms \<longrightarrow> samples (foldl (init_mode arg) s ms) m = samples s m
     \<and> n_found (foldl (init_mode arg) s ms) m = n_found s m
     \<and> n_required (foldl (init_mode arg) s ms) m = n_required s m)"
proof (induction ms arbitrary: s)
  case Nil
  show ?case by simp
next
  case (Cons a ms)
  show ?case
    using Cons.IH[of "init_mode arg s a"] init_mode_same[of arg s a] init_mode_other[of a m arg s]
    by (cases "a = m") (auto simp: init_mode_inputs)
qed

lemma saliency_init_mode:
  assumes "m \<in> set (modes_or_default modes)"
  shows "samples (saliency_init ins arg modes) m = Some (arg_buffer arg) \<and>
   n_found (saliency_init ins arg modes) m = Some 0 \<and>
   n_required (saliency_init ins arg modes) m = Some (arg_required arg)"
  unfolding saliency_init_def using foldl_init_mode[of arg _ "modes_or_default modes" m] assms
  by blast

lemma saliency_init_inputs: "inputs (saliency_init ins arg modes) = ins"
  unfolding saliency_init_def by (simp only: foldl_init_mode[THEN conjunct1]) simp

lemma append_keys_general:
  assumes "\<forall>k\<in>set ks. dat k = Some (b k)"
  shows "\<exists>d'. append_keys dat ks (DefaultDict d) n =
                 Inr (DefaultDict d', if ks = [] then n else int (length (b (last ks))))
     \<and> fst ` set d' = fst ` set d \<union> set ks
     \<and> (distinct (map fst d) \<longrightarrow> distinct (map fst d'))
     \<and> (\<forall>k\<in>set ks. k \<notin> fst ` set d \<longrightarrow> (\<exists>l. map_of d' k = Some (b k # l)))
     \<and> (\<forall>k l. map_of d k = Some l \<longrightarrow> (\<exists>l'. map_of d' k = Some (l @ l')))
     \<and> (ks = [] \<longrightarrow> d' = d)"
  using assms
proof (induction ks arbitrary: d n)
  case Nil
  show ?case by simp
next
  case (Cons k ks)
  have dk: "dat k = Some (b k)" using Cons.prems by simp
  define old where "old = (case map_of d k of None \<Rightarrow> [] | Some l \<Rightarrow> l)"
  define d1 where "d1 = AList.update k (old @ [b k]) d"
  from Cons.prems have "\<forall>k\<in>set ks. dat k = Some (b k)" by simp
  from Cons.IH[OF this, of d1 "int (length (b k))"]
  obtain d' where d':
    "append_keys dat ks (DefaultDict d1) (int (length (b k))) =
       Inr (DefaultDict d', if ks = [] then int (length (b k)) else int (length (b (last ks))))"
    "fst ` set d' = fst ` set d1 \<union> set ks"
    "distinct (map fst d1) \<longrightarrow> distinct (map fst d')"
    "\<forall>k\<in>set ks. k \<notin> fst ` set d1 \<longrightarrow> (\<exists>l. map_of d' k = Some (b k # l))"
    "\<forall>k l. map_of d1 k = Some l \<longrightarrow> (\<exists>l'. map_of d' k = Some (l @ l'))"
    by blast
  have keys1: "fst ` set d1 = insert k (fst ` set d)"
    by (simp add: d1_def dom_update)
  have m1: "map_of d1 = (map_of d)(k \<mapsto> old @ [b k])"
    by (simp add: d1_def update_conv')
  have 1: "append_keys dat (k # ks) (DefaultDict d) n =
        Inr (DefaultDict d', if k # ks = [] then n else int (length (b (last (k # ks)))))"
    using d'(1) by (simp add: dk old_def d1_def)
  have 2: "fst ` set d' = fst ` set d \<union> set (k # ks)"
    using d'(2) keys1 by auto
  have 3: "distinct (map fst d) \<longrightarrow> distinct (map fst d')"
    using d'(3) by (simp add: d1_def distinct_update)
  have 4: "\<exists>l. map_of d' k' = Some (b k' # l)" if "k' \<in> set (k # ks)" "k' \<notin> fst ` set d" for k'
  proof (cases "k' = k")
    case True
    have "map_of d k = None" using that(2) True by (simp add: map_of_eq_None_iff)
    then have "map_of d1 k = Some [b k]" by (simp add: m1 old_def)
    with d'(5) True show ?thesis by fastforce
  next
    case False
    with that keys1 have "k' \<in> set ks" "k' \<notin> fst ` set d1" by auto
    with d'(4) show ?thesis by blast
  qed
  have 5: "\<exists>l'. map_of d' k' = Some (l @ l')" if "map_of d k' = Some l" for k' l
  proof (cases "k' = k")
    case True
    with that have "map_of d1 k' = Some (l @ [b k])" by (simp add: m1 old_def)
    with d'(5) obtain l' where "map_of d' k' = Some ((l @ [b k]) @ l')" by blast
    then show ?thesis by simp
  next
    case False
    with that have "map_of d1 k' = Some l" by (simp add: m1)
    with d'(5) show ?thesis by blast
  qed
  from 1 2 3 4 5 show ?case by blast
qed

lemma first_batches_nonempty:
  "\<forall>v\<in>snd ` set d. v \<noteq> [] \<Longrightarrow> first_batches d = Inr (map (\<lambda>(k, v). (k, hd v)) d)"
  by (induction d) (auto simp: py_getitem_def hd_conv_nth)

lemma map_of_map_hd: "map_of (map (\<lambda>(k, v). (k, f v)) d) k = map_option f (map_of d k)"
  by (induction d) auto

lemma inv_init: "collector_inv (saliency_init ins arg modes) m"
proof (cases "m \<in> set (modes_or_default modes)")
  case True
  from saliency_init_mode[OF True, of ins arg] show ?thesis
    by (cases arg) (simp_all add: collector_inv_def)
next
  case False
  with foldl_init_mode[of arg _ "modes_or_default modes" m]
  show ?thesis
    by (simp add: collector_inv_def saliency_init_def)
qed

lemma append_keys_inv:
  assumes "append_keys dat ks (DefaultDict d) n = Inr (buf', n')"
    and "\<forall>v\<in>snd ` set d. v \<noteq> []" and "0 \<le> n"
  shows "\<exists>d'. buf' = DefaultDict d' \<and> (\<forall>v\<in>snd ` set d'. v \<noteq> []) \<and> 0 \<le> n'
            \<and> (ks = [] \<longrightarrow> d' = d \<and> n' = n) \<and> (ks \<noteq> [] \<longrightarrow> d' \<noteq> [])"
  using assms
proof (induction ks arbitrary: d n)
  case Nil
  then show ?case by simp
next
  case (Cons k ks)
  from Cons.prems(1) obtain b where b: "dat k = Some b" by (auto split: option.splits)
  define d1 where "d1 = AList.update k ((case map_of d k of None \<Rightarrow> [] | Some l \<Rightarrow> l) @ [b]) d"
  have run: "append_keys dat ks (DefaultDict d1) (int (length b)) = Inr (buf', n')"
    using Cons.prems(1) by (simp add: b d1_def)
  have ne: "\<forall>v\<in>snd ` set d1. v \<noteq> []"
    using Cons.prems(2) set_update_sub[of k _ d] unfolding d1_def by fastforce
  from Cons.IH[OF run ne] obtain d' where d': "buf' = DefaultDict d'"
    "\<forall>v\<in>snd ` set d'. v \<noteq> []" "0 \<le> n'" "ks = [] \<longrightarrow> d' = d1 \<and> n' = int (length b)"
    "ks \<noteq> [] \<longrightarrow> d' \<noteq> []"
    by auto
  have "d1 \<noteq> []" by (simp add: d1_def)
  with d' have "d' \<noteq> []" by (cases "ks = []") auto
  with d' show ?case by simp
qed

lemma accumulate_inv:
  assumes inv: "collector_inv s m" and buf: "samples s m = Some buf"
    and acc: "accumulate m dat buf s = Inr s'"
  shows "collector_inv s' m"
proof -
  from inv buf obtain f r where fr: "n_found s m = Some f" "n_required s m = Some r" "buf_ok buf f r"
    by (auto simp: collector_inv_def)
  from acc obtain buf' n' where ak: "append_keys dat (inputs s) buf 0 = Inr (buf', n')"
    and s': "s' = s\<lparr>samples := (samples s)(m \<mapsto> buf'), n_found := (n_found s)(m \<mapsto> f + n')\<rparr>"
    by (auto simp: accumulate_def fr split: sum.splits)
  show ?thesis
  proof (cases buf)
    case (DefaultDict d)
    with fr have ok: "\<forall>v\<in>snd ` set d. v \<noteq> []" "0 \<le> f" "0 < f \<longrightarrow> d \<noteq> []" by auto
    from append_keys_inv[OF ak[unfolded DefaultDict] ok(1)]
    obtain d' where d': "buf' = DefaultDict d'" "\<forall>v\<in>snd ` set d'. v \<noteq> []" "0 \<le> n'"
      "inputs s = [] \<longrightarrow> d' = d \<and> n' = 0" "inputs s \<noteq> [] \<longrightarrow> d' \<noteq> []"
      by auto
    have "0 < f + n' \<longrightarrow> d' \<noteq> []" using d'(4,5) ok(3) by (cases "inputs s = []") auto
    with d' ok show ?thesis by (simp add: collector_inv_def s' fr)
  next
    case (Dict d)
    with ak have "inputs s = []" by (cases "inputs s") (auto split: option.splits)
    with ak Dict have "buf' = Dict d" "n' = 0" by auto
    with fr Dict show ?thesis by (simp add: collector_inv_def s')
  qed
qed

lemma accumulate_other:
  "accumulate m' dat buf s = Inr s' \<Longrightarrow> m \<noteq> m' \<Longrightarrow>
   samples s' m = samples s m \<and> n_found s' m = n_found s m \<and> n_required s' m = n_required s m"
  by (auto simp: accumulate_def split: sum.splits option.splits)

lemma on_batch_end_other:
  "on_batch_end m' dat s = Inr s' \<Longrightarrow> m \<noteq> m' \<Longrightarrow>
   samples s' m = samples s m \<and> n_found s' m = n_found s m \<and> n_required s' m = n_required s m"
  by (auto simp: on_batch_end_def split: option.splits if_splits dest: accumulate_other)

lemma on_epoch_end_other:
  "on_epoch_end m' s = Inr s' \<Longrightarrow> m \<noteq> m' \<Longrightarrow>
   samples s' m = samples s m \<and> n_found s' m = n_found s m \<and> n_required s' m = n_required s m"
  by (auto simp: on_epoch_end_def split: option.splits if_splits sum.splits)

lemma step_other:
  "step ev s = Inr s' \<Longrightarrow> (case ev of BatchEnd m' _ \<Rightarrow> m \<noteq> m' | EpochEnd m' \<Rightarrow> m \<noteq> m') \<Longrightarrow>
   samples s' m = samples s m \<and> n_found s' m = n_found s m \<and> n_required s' m = n_required s m"
  by (cases ev) (auto dest: on_batch_end_other on_epoch_end_other)

lemma inv_cong:
  "samples s' m = samples s m \<Longrightarrow> n_found s' m = n_found s m \<Longrightarrow> n_required s' m = n_required s m
   \<Longrightarrow> collector_inv s m \<Longrightarrow> collector_inv s' m"
  by (simp add: collector_inv_def cong: option.case_cong)

lemma on_batch_end_inv:
  assumes "collector_inv s m" "on_batch_end m' dat s = Inr s'"
  shows "collector_inv s' m"
proof (cases "m = m'")
  case False
  with on_batch_end_other[OF assms(2) False] assms(1) show ?thesis by (auto intro: inv_cong)
next
  case True
  from assms(2) True obtain buf where buf: "samples s m = Some buf"
    by (auto simp: on_batch_end_def split: option.splits)
  from assms(2) True buf have "s' = s \<or> accumulate m dat buf s = Inr s'"
    by (auto simp: on_batch_end_def split: option.splits if_splits)
  with assms(1) buf show ?thesis by (auto intro: accumulate_inv)
qed

lemma finalize_shape:
  assumes "finalize r (DefaultDict d) = Inr buf'" "d \<noteq> []"
  shows "\<exists>fd. buf' = Dict fd \<and> fd \<noteq> []"
proof (cases "0 < r")
  case True
  with assms show ?thesis by auto
next
  case False
  with assms obtain fd where fd: "first_batches d = Inr fd" "buf' = Dict fd"
    by (auto split: sum.splits)
  from fd(1) assms(2) have "fd \<noteq> []"
    by (cases d) (auto split: sum.splits)
  with fd show ?thesis by simp
qed

lemma finalize_total:
  assumes "\<forall>v\<in>snd ` set d. v \<noteq> []"
  shows "\<exists>buf'. finalize r (DefaultDict d) = Inr buf'"
  by (simp add: first_batches_nonempty[OF assms])

lemma on_epoch_end_freezes:
  assumes inv: "collector_inv s m" and f: "n_found s m = Some f" "0 < f"
  shows "\<exists>s'. on_epoch_end m s = Inr s' \<and> frozen s' m"
proof -
  from inv f obtain buf r where br: "samples s m = Some buf" "n_required s m = Some r" "buf_ok buf f r"
    by (auto simp: collector_inv_def split: option.splits)
  from br(3) f(2) obtain d where d: "buf = DefaultDict d" "\<forall>v\<in>snd ` set d. v \<noteq> []" "d \<noteq> []"
    by (cases buf) auto
  from finalize_total[OF d(2)] obtain buf' where fin: "finalize r (DefaultDict d) = Inr buf'" by blast
  from finalize_shape[OF fin d(3)] obtain fd where fd: "buf' = Dict fd" "fd \<noteq> []" by blast
  from f br d fin fd show ?thesis
    by (simp add: on_epoch_end_def frozen_def del: finalize.simps)
qed

lemma frozen_inv: "frozen s m \<Longrightarrow> collector_inv s m"
  by (auto simp: frozen_def collector_inv_def)

lemma on_epoch_end_inv:
  assumes "collector_inv s m" "on_epoch_end m' s = Inr s'"
  shows "collector_inv s' m"
proof (cases "m = m'")
  case False
  with on_epoch_end_other[OF assms(2) False] assms(1) show ?thesis by (auto intro: inv_cong)
next
  case True
  from assms(2) True obtain f where f: "n_found s m = Some f"
    by (auto simp: on_epoch_end_def split: option.splits)
  show ?thesis
  proof (cases "0 < f")
    case True
    from on_epoch_end_freezes[OF assms(1) f True] assms(2) \<open>m = m'\<close> show ?thesis
      by (auto intro: frozen_inv)
  next
    case False
    with assms(2) f \<open>m = m'\<close> have "s' = s" by (simp add: on_epoch_end_def)
    with assms(1) show ?thesis by simp
  qed
qed

lemma step_inv: "collector_inv s m \<Longrightarrow> step ev s = Inr s' \<Longrightarrow> collector_inv s' m"
  by (cases ev) (auto intro: on_batch_end_inv on_epoch_end_inv)

lemma run_inv: "collector_inv s m \<Longrightarrow> run evs s = Inr s' \<Longrightarrow> collector_inv s' m"
proof (induction evs arbitrary: s)
  case Nil
  then show ?case by simp
next
  case (Cons ev evs)
  from Cons.prems(2) obtain s1 where s1: "step ev s = Inr s1" "run evs s1 = Inr s'"
    by (auto split: sum.splits)
  from step_inv[OF Cons.prems(1) s1(1)] Cons.IH s1(2) show ?case by blast
qed






text \<open>
  From \<open>__init__\<close> on, \<open>on_epoch_end\<close> never meets a buffer outside the types of the
  embedding and never indexes an empty pending list: it returns, or the mode is unknown.
\<close>

lemma on_epoch_end_typed:
  assumes "run evs (saliency_init ins arg modes) = Inr s"
  shows "on_epoch_end m s = Inl KeyError \<or> (\<exists>s'. on_epoch_end m s = Inr s')"
proof (cases "n_found s m")
  case None
  then show ?thesis by (simp add: on_epoch_end_def)
next
  case (Some f)
  have inv: "collector_inv s m" using run_inv[OF inv_init assms] .
  show ?thesis
  proof (cases "0 < f")
    case True
    from on_epoch_end_freezes[OF inv Some True] show ?thesis by blast
  next
    case False
    with Some show ?thesis by (simp add: on_epoch_end_def)
  qed
qed

text \<open>
  C2. A trace built with \<open>samples = 3\<close> and distinct tracked keys receives, in one of its
  modes, two batches of 2 rows for every tracked key and then the end of the epoch. The
  buffer of that mode is then a plain dictionary that holds, for every tracked key, the
  first 3 rows of the first batch followed by the second, and these are 3 rows.
\<close>

theorem collect_capped:
  assumes m: "m \<in> set (modes_or_default modes)"
    and ins: "distinct ins" "ins \<noteq> []"
    and d1: "\<forall>k\<in>set ins. d1 k = Some (b1 k) \<and> length (b1 k) = 2"
    and d2: "\<forall>k\<in>set ins. d2 k = Some (b2 k) \<and> length (b2 k) = 2"
  shows "\<exists>s. run [BatchEnd m d1, BatchEnd m d2, EpochEnd m] (saliency_init ins (Count 3) modes) = Inr s
           \<and> samples s m = Some (Dict (map (\<lambda>k. (k, take 3 (b1 k @ b2 k))) ins))
           \<and> (\<forall>k\<in>set ins. length (take 3 (b1 k @ b2 k)) = 3)"
proof -
  let ?s0 = "saliency_init ins (Count 3) modes :: 'a saliency"
  have s0: "samples ?s0 m = Some (DefaultDict [])" "n_found ?s0 m = Some 0"
    "n_required ?s0 m = Some 3" "inputs ?s0 = ins"
    using saliency_init_mode[OF m, of ins "Count 3 :: 'a samples_arg"]
    by (simp_all add: saliency_init_inputs)
  have last1: "length (b1 (last ins)) = 2" and last2: "length (b2 (last ins)) = 2"
    using d1 d2 ins(2) by simp_all
  define c1 where "c1 = map (\<lambda>k. (k, [b1 k])) ins"
  define s1 where "s1 = ?s0\<lparr>samples := (samples ?s0)(m \<mapsto> DefaultDict c1),
                             n_found := (n_found ?s0)(m \<mapsto> 2)\<rparr>"
  have ak1: "append_keys d1 ins (DefaultDict []) 0 = Inr (DefaultDict c1, 2)"
    using append_keys_fresh[of ins "[]" d1 b1 0] ins d1 last1 by (simp add: c1_def)
  have b1: "on_batch_end m d1 ?s0 = Inr s1"
    by (simp add: on_batch_end_def accumulate_def s0 ak1 s1_def)
  define c2 where "c2 = map (\<lambda>k. (k, [b1 k, b2 k])) ins"
  define s2 where "s2 = s1\<lparr>samples := (samples s1)(m \<mapsto> DefaultDict c2),
                             n_found := (n_found s1)(m \<mapsto> 4)\<rparr>"
  have s1f: "samples s1 m = Some (DefaultDict c1)" "n_found s1 m = Some 2"
    "n_required s1 m = Some 3" "inputs s1 = ins"
    by (simp_all add: s1_def s0)
  have ak2: "append_keys d2 ins (DefaultDict c1) 0 = Inr (DefaultDict c2, 2)"
    using append_keys_present[of ins ins d2 b2 "\<lambda>k. [b1 k]" 0] ins d2 last2
    by (simp add: c1_def c2_def)
  have ne1: "c1 \<noteq> []" using ins(2) by (simp add: c1_def)
  have b2: "on_batch_end m d2 s1 = Inr s2"
    by (simp add: on_batch_end_def accumulate_def s1f ak2 s2_def ne1)
  have s2f: "samples s2 m = Some (DefaultDict c2)" "n_found s2 m = Some 4"
    "n_required s2 m = Some 3"
    by (simp_all add: s2_def s1f)
  define fd where "fd = map (\<lambda>k. (k, take 3 (b1 k @ b2 k))) ins"
  define s3 where "s3 = s2\<lparr>samples := (samples s2)(m \<mapsto> Dict fd),
                             n_found := (n_found s2)(m \<mapsto> 0), n_required := (n_required s2)(m \<mapsto> 0)\<rparr>"
  have fin: "finalize 3 (DefaultDict c2) = Inr (Dict fd)"
    by (simp add: fd_def c2_def concat_batch_def slice_to_def comp_def)
  have e: "on_epoch_end m s2 = Inr s3"
    by (simp add: on_epoch_end_def s2f fin s3_def del: finalize.simps)
  have "run [BatchEnd m d1, BatchEnd m d2, EpochEnd m] ?s0 = Inr s3"
    by (simp add: b1 b2 e)
  moreover have "samples s3 m = Some (Dict (map (\<lambda>k. (k, take 3 (b1 k @ b2 k))) ins))"
    by (simp add: s3_def fd_def del: take_append)
  moreover have "\<forall>k\<in>set ins. length (take 3 (b1 k @ b2 k)) = 3"
    using d1 d2 by simp
  ultimately show ?thesis by blast
qed

theorem collect_capped_witness:
  "\<exists>s. run [BatchEnd ''eval'' [''x'' \<mapsto> [1, 2], ''y'' \<mapsto> [10, 20]],
             BatchEnd ''eval'' [''x'' \<mapsto> [3, 4], ''y'' \<mapsto> [30, 40]],
             EpochEnd ''eval'']
            (saliency_init [''y'', ''x''] (Count 3) []) = Inr s
       \<and> samples s ''eval'' = Some (Dict [(''y'', [10, 20, 30 :: int]), (''x'', [1, 2, 3])])"
  using collect_capped [of "''eval''" "[]" "[''y'', ''x'']"
      "[''x'' \<mapsto> [1, 2], ''y'' \<mapsto> [10, 20 :: int]]"
      "\<lambda>k. if k = ''x'' then [1, 2] else [10, 20]"
      "[''x'' \<mapsto> [3, 4], ''y'' \<mapsto> [30, 40]]"
      "\<lambda>k. if k = ''x'' then [3, 4] else [30, 40]"]
  by (simp add: modes_or_default_def)

text \<open>
  C3. A trace built with \<open>samples = None\<close> receives two batches and then the end of the
  epoch, the first batch with at least one row. The buffer of that mode is then a plain
  dictionary over the tracked keys that holds the first batch for each of them. The second
  batch is dropped: the run ends in the same state without it.
\<close>

theorem collect_single_batch:
  assumes m: "m \<in> set (modes_or_default modes)"
    and ins: "ins \<noteq> []"
    and d1: "\<forall>k\<in>set ins. d1 k = Some (b1 k)"
    and rows: "b1 (last ins) \<noteq> []"
  shows "\<exists>s fd. run [BatchEnd m d1, BatchEnd m d2, EpochEnd m] (saliency_init ins NoSamples modes) = Inr s
           \<and> run [BatchEnd m d1, EpochEnd m] (saliency_init ins NoSamples modes) = Inr s
           \<and> samples s m = Some (Dict fd)
           \<and> keys fd = set ins \<and> distinct (map fst fd)
           \<and> (\<forall>k\<in>set ins. map_of fd k = Some (b1 k))"
proof -
  let ?s0 = "saliency_init ins NoSamples modes :: 'a saliency"
  have s0: "samples ?s0 m = Some (DefaultDict [])" "n_found ?s0 m = Some 0"
    "n_required ?s0 m = Some 0" "inputs ?s0 = ins"
    using saliency_init_mode[OF m, of ins "NoSamples :: 'a samples_arg"]
    by (simp_all add: saliency_init_inputs)
  from append_keys_general[OF d1, of "[]" 0] ins
  obtain c1 where c1:
    "append_keys d1 ins (DefaultDict []) 0 = Inr (DefaultDict c1, int (length (b1 (last ins))))"
    "fst ` set c1 = set ins" "distinct (map fst c1)"
    "\<forall>k\<in>set ins. \<exists>l. map_of c1 k = Some (b1 k # l)"
    by auto
  define n where "n = int (length (b1 (last ins)))"
  have npos: "0 < n" using rows by (simp add: n_def)
  define s1 where "s1 = ?s0\<lparr>samples := (samples ?s0)(m \<mapsto> DefaultDict c1),
                             n_found := (n_found ?s0)(m \<mapsto> n)\<rparr>"
  have b1: "on_batch_end m d1 ?s0 = Inr s1"
    by (simp add: on_batch_end_def accumulate_def s0 c1(1) s1_def n_def)
  have s1f: "samples s1 m = Some (DefaultDict c1)" "n_found s1 m = Some n"
    "n_required s1 m = Some 0"
    by (simp_all add: s1_def s0)
  have ne1: "c1 \<noteq> []" using c1(2) ins by auto
  have b2: "on_batch_end m d2 s1 = Inr s1"
    using npos by (simp add: on_batch_end_def s1f ne1)
  have nonempty: "\<forall>v\<in>snd ` set c1. v \<noteq> []"
  proof
    fix v assume "v \<in> snd ` set c1"
    then obtain k where kv: "(k, v) \<in> set c1" by auto
    then have "k \<in> set ins" using c1(2) by force
    with c1(4) obtain l where "map_of c1 k = Some (b1 k # l)" by blast
    moreover have "map_of c1 k = Some v" using kv c1(3) by simp
    ultimately show "v \<noteq> []" by auto
  qed
  define fd where "fd = map (\<lambda>(k, v). (k, hd v)) c1"
  have fin: "finalize 0 (DefaultDict c1) = Inr (Dict fd)"
    by (simp add: first_batches_nonempty[OF nonempty] fd_def)
  define s3 where "s3 = s1\<lparr>samples := (samples s1)(m \<mapsto> Dict fd),
                             n_found := (n_found s1)(m \<mapsto> 0), n_required := (n_required s1)(m \<mapsto> 0)\<rparr>"
  have e: "on_epoch_end m s1 = Inr s3"
    using npos by (simp add: on_epoch_end_def s1f fin s3_def del: finalize.simps)
  have r1: "run [BatchEnd m d1, BatchEnd m d2, EpochEnd m] ?s0 = Inr s3"
    by (simp add: b1 b2 e)
  have r2: "run [BatchEnd m d1, EpochEnd m] ?s0 = Inr s3"
    by (simp add: b1 e)
  have k: "keys fd = set ins"
    using c1(2) by (simp add: keys_def fd_def comp_def case_prod_unfold image_image flip: set_map)
  have dist: "distinct (map fst fd)"
    using c1(3) by (simp add: fd_def comp_def case_prod_unfold)
  have vals: "\<forall>k\<in>set ins. map_of fd k = Some (b1 k)"
  proof
    fix k assume "k \<in> set ins"
    with c1(4) obtain l where "map_of c1 k = Some (b1 k # l)" by blast
    then show "map_of fd k = Some (b1 k)" by (simp add: fd_def map_of_map_hd)
  qed
  have "samples s3 m = Some (Dict fd)" by (simp add: s3_def)
  with r1 r2 k dist vals show ?thesis by blast
qed

theorem collect_single_batch_witness:
  "\<exists>s fd. run [BatchEnd ''eval'' [''x'' \<mapsto> [1, 2 :: int]],
                BatchEnd ''eval'' [''x'' \<mapsto> [3, 4]],
                EpochEnd ''eval'']
               (saliency_init [''x''] NoSamples [''eval'']) = Inr s
       \<and> samples s ''eval'' = Some (Dict fd)
       \<and> map_of fd ''x'' = Some [1, 2]"
  using collect_single_batch [of "''eval''" "[''eval'']" "[''x'']"
      "[''x'' \<mapsto> [1, 2 :: int]]" "\<lambda>k. [1, 2]" "[''x'' \<mapsto> [3, 4]]"]
  by (simp add: modes_or_default_def) blast



section \<open>Properties of \<open>pad_data\<close>\<close>


lemma in_bounds_Nil [simp]: "in_bounds [] idx = (idx = [])" "in_bounds sh [] = (sh = [])"
  by (auto simp: in_bounds_def)

lemma in_bounds_Cons [simp]:
  "in_bounds (n # ns) (i # is) = (i < n \<and> in_bounds ns is)"
  by (simp add: in_bounds_def)


lemma nd_get_outside: "has_shape ns x \<Longrightarrow> \<not> in_bounds ns idx \<Longrightarrow> nd_get x idx = None"
proof (induction ns x arbitrary: idx rule: has_shape.induct)
  case (1 x)
  then show ?case by (cases idx) simp_all
next
  case (2 n ns xs)
  then show ?case by (cases idx) auto
qed simp_all





lemma padded_shape_zero:
  "length ps = length ns \<Longrightarrow> \<forall>p\<in>set ps. p = (0, 0) \<Longrightarrow> padded_shape ps ns = ns"
  unfolding padded_shape_def
  by (induction ps ns rule: list_induct2) simp_all

















section \<open>Properties of \<open>cpu_count\<close>\<close>

text \<open>
  C9. With at least 2 cores and neither \<open>FE_NUM_THREADS_\<close> nor \<open>FE_NUM_THREADS\<close> set,
  \<open>cpu_count(limit=2)\<close> returns 2 and records it; a second \<open>cpu_count(limit=2)\<close> returns 2
  from the record, whatever the number of cores is by then, and leaves the environment as it
  is; \<open>cpu_count(limit=4)\<close> after that raises \<open>ValueError\<close>.
\<close>

theorem cpu_count_cached:
  assumes "2 \<le> cores" "environ ''FE_NUM_THREADS_'' = None" "environ ''FE_NUM_THREADS'' = None"
  shows "\<exists>environ'. cpu_count (Some 2) cores environ = Inr (2, environ')
           \<and> cpu_count (Some 2) cores' environ' = Inr (2, environ')
           \<and> cpu_count (Some 4) cores'' environ' = Inl ValueError"
proof -
  define e where "e = environ(''FE_NUM_THREADS_'' \<mapsto> ''2'', ''OMP_NUM_THREADS'' \<mapsto> ''2'',
      ''MKL_NUM_THREADS'' \<mapsto> ''2'', ''TF_NUM_INTEROP_THREADS'' \<mapsto> ''2'',
      ''TF_NUM_INTRAOP_THREADS'' \<mapsto> ''2'')"
  have p: "py_int ''2'' = Some 2"
    by (simp add: py_int_def strip_def is_space_def parse_nat_def is_digit_def digit_val_def)
  have s: "str_int 2 = ''2''" by (simp add: str_int_def str_nat.simps)
  have m: "min cores 2 = 2" using assms(1) by simp
  have 1: "cpu_count (Some 2) cores environ = Inr (2, e)"
    using assms by (simp add: cpu_count_def or_else_def Let_def m s e_def)
  have c: "e ''FE_NUM_THREADS_'' = Some ''2''" by (simp add: e_def)
  have 2: "cpu_count (Some 2) cores' e = Inr (2, e)"
    by (simp add: cpu_count_def c p)
  have 3: "cpu_count (Some 4) cores'' e = Inl ValueError"
    by (simp add: cpu_count_def c p)
  from 1 2 3 show ?thesis by blast
qed

theorem cpu_count_cached_witness:
  "\<exists>environ'. cpu_count (Some 2) 8 Map.empty = Inr (2, environ')
           \<and> cpu_count (Some 2) 8 environ' = Inr (2, environ')
           \<and> cpu_count (Some 4) 8 environ' = Inl ValueError"
  using cpu_count_cached [of 8 Map.empty 8 8] by simp

end
